theory Spec2Isabelle
  imports Main
begin

section \<open>Strings\<close>

text \<open>
  The sinkhole is the Python program of the repository (blocklist aggregation, domain
  classification and the UDP relay). A Python \<open>str\<close> is modelled as a \<^typ>\<open>string\<close>, whose
  characters are the code points U+0000 to U+00FF. On that range the built-in string
  methods the program calls are the functions below.
\<close>

definition code :: "char \<Rightarrow> nat" where
  "code c = of_char c"

text \<open>\<open>str.isspace\<close> on one character: TAB..CR, FS..US, SPACE, NEL and NBSP.\<close>

definition isspace :: "char \<Rightarrow> bool" where
  "isspace c = ((9 \<le> code c \<and> code c \<le> 13) \<or> (28 \<le> code c \<and> code c \<le> 32)
                 \<or> code c = 133 \<or> code c = 160)"

text \<open>\<open>\d\<close> of a \<open>str\<close> pattern: the decimal digits, which below U+0100 are 0 to 9.\<close>

definition isdigit :: "char \<Rightarrow> bool" where
  "isdigit c = (48 \<le> code c \<and> code c \<le> 57)"

text \<open>\<open>str.lower\<close> on one character: A..Z, and the Latin-1 capitals U+00C0..U+00DE
  but the multiplication sign U+00D7, move up by 32.\<close>

definition lower_char :: "char \<Rightarrow> char" where
  "lower_char c =
     (if (65 \<le> code c \<and> code c \<le> 90) \<or> (192 \<le> code c \<and> code c \<le> 222 \<and> code c \<noteq> 215)
      then char_of (code c + 32) else c)"

definition lower :: "string \<Rightarrow> string" where
  "lower s = map lower_char s"

text \<open>\<open>s.strip()\<close> and \<open>s.strip(chars)\<close>: drop from both ends while the predicate holds.\<close>

definition strip_where :: "(char \<Rightarrow> bool) \<Rightarrow> string \<Rightarrow> string" where
  "strip_where P s = rev (dropWhile P (rev (dropWhile P s)))"

definition strip :: "string \<Rightarrow> string" where
  "strip s = strip_where isspace s"

definition strip_chars :: "string \<Rightarrow> string \<Rightarrow> string" where
  "strip_chars chars s = strip_where (\<lambda>c. c \<in> set chars) s"

definition startswith :: "string \<Rightarrow> string \<Rightarrow> bool" where
  "startswith p s = (take (length p) s = p)"

text \<open>\<open>s.split()\<close>: the maximal runs of non-whitespace characters, in order.\<close>

function split_ws :: "string \<Rightarrow> string list" where
  "split_ws s =
     (case dropWhile isspace s of
        [] \<Rightarrow> []
      | c # cs \<Rightarrow> (c # takeWhile (\<lambda>x. \<not> isspace x) cs)
                  # split_ws (dropWhile (\<lambda>x. \<not> isspace x) cs))"
  by pat_completeness auto
termination
proof (relation "measure length")
  show "wf (measure length)" by simp
next
  fix s :: string and c cs
  assume h: "dropWhile isspace s = c # cs"
  have "length (dropWhile (\<lambda>x. \<not> isspace x) cs) \<le> length cs"
    by (rule length_dropWhile_le)
  moreover have "length (c # cs) \<le> length s"
    using length_dropWhile_le [of isspace s] h by simp
  ultimately show "(dropWhile (\<lambda>x. \<not> isspace x) cs, s) \<in> measure length"
    by simp
qed

declare split_ws.simps [simp del]

text \<open>\<open>s.split(sep)\<close> for a one-character separator: cut at every separator, keeping
  empty fields; the result is never the empty list.\<close>

function split_sep :: "char \<Rightarrow> string \<Rightarrow> string list" where
  "split_sep sep s =
     (case dropWhile (\<lambda>x. x \<noteq> sep) s of
        [] \<Rightarrow> [s]
      | c # rest \<Rightarrow> takeWhile (\<lambda>x. x \<noteq> sep) s # split_sep sep rest)"
  by pat_completeness auto
termination
proof (relation "measure (\<lambda>(sep, s). length s)")
  show "wf (measure (\<lambda>(sep, s). length s))" by simp
next
  fix sep :: char and s :: string and c rest
  assume h: "dropWhile (\<lambda>x. x \<noteq> sep) s = c # rest"
  have "length (c # rest) \<le> length s"
    using length_dropWhile_le [of "\<lambda>x. x \<noteq> sep" s] h by simp
  then show "((sep, rest), (sep, s)) \<in> measure (\<lambda>(sep, s). length s)"
    by simp
qed

declare split_sep.simps [simp del]

text \<open>\<open>sep.join(parts)\<close>.\<close>

fun join :: "string \<Rightarrow> string list \<Rightarrow> string" where
  "join sep [] = []"
| "join sep [w] = w"
| "join sep (w # v # ws) = w @ sep @ join sep (v # ws)"

section \<open>Domain normalisation: \<open>cleanup_domain\<close>\<close>

text \<open>
  \<open>re.match(r"^\d{1,3}\.\d{1,3}\.\d{1,3}\.\d{1,3}$", s)\<close>: four dot-separated groups of
  one to three digits; \<open>$\<close> also matches just before a newline that ends the string.
\<close>

definition digits_1_3 :: "string \<Rightarrow> bool" where
  "digits_1_3 s = (1 \<le> length s \<and> length s \<le> 3 \<and> list_all isdigit s)"

definition dotted_quad :: "string \<Rightarrow> bool" where
  "dotted_quad s =
     (case split_sep CHR ''.'' s of
        [a, b, c, d] \<Rightarrow> digits_1_3 a \<and> digits_1_3 b \<and> digits_1_3 c \<and> digits_1_3 d
      | _ \<Rightarrow> False)"

definition match_ipv4 :: "string \<Rightarrow> bool" where
  "match_ipv4 s =
     (dotted_quad s \<or> (s \<noteq> [] \<and> last s = CHR 0x0A \<and> dotted_quad (butlast s)))"

text \<open>
  \<open>re.sub(r"^(https?://)?(www\.)?", "", s)\<close>: the pattern is anchored at the start of the
  string, so it is replaced once: an optional scheme, then an optional \<open>www.\<close>.
\<close>

definition remove_prefix :: "string \<Rightarrow> string \<Rightarrow> string" where
  "remove_prefix p s = (if startswith p s then drop (length p) s else s)"

definition sub_scheme_www :: "string \<Rightarrow> string" where
  "sub_scheme_www s =
     (let s1 = (if startswith ''https://'' s then drop 8 s
                else if startswith ''http://'' s then drop 7 s else s)
      in remove_prefix ''www.'' s1)"

text \<open>The class \<open>[a-z0-9\.-]\<close> of \<open>re.sub(r"[^a-z0-9\.-]", "", s)\<close>.\<close>

definition domain_char :: "char \<Rightarrow> bool" where
  "domain_char c = (c \<in> set ''abcdefghijklmnopqrstuvwxyz0123456789.-'')"

definition cleanup_domain :: "string \<Rightarrow> string" where
  "cleanup_domain line =
     (let domain = lower (strip line) in
      if domain = [] \<or> startswith ''#'' domain then []
      else
        let parts = split_ws domain;
            domain = (if length parts > 1 \<and> match_ipv4 (parts ! 0) then parts ! 1 else domain);
            domain = sub_scheme_www domain;
            domain = (if CHR ''/'' \<in> set domain then hd (split_sep CHR ''/'' domain)
                      else domain);
            domain = filter domain_char domain
        in strip_chars ''-.'' domain)"

section \<open>Classification: \<open>is_domain_blocked\<close>\<close>

text \<open>
  The loop \<open>for i in range(len(parts))\<close> of \<open>is_domain_blocked\<close>, from index \<open>i\<close> on: it
  returns at the first \<open>".".join(parts[i:])\<close> found in the blocklist.
\<close>

function suffix_loop :: "string set \<Rightarrow> string list \<Rightarrow> nat \<Rightarrow> bool" where
  "suffix_loop blocked_domains parts i =
     (if i < length parts
      then (if join ''.'' (drop i parts) \<in> blocked_domains then True
            else suffix_loop blocked_domains parts (Suc i))
      else False)"
  by pat_completeness auto
termination
  by (relation "measure (\<lambda>(b, parts, i). length parts - i)") auto

declare suffix_loop.simps [simp del]

text \<open>\<open>is_domain_blocked\<close>, on the two global sets as they are while the lock is held.\<close>

definition is_domain_blocked :: "string set \<Rightarrow> string set \<Rightarrow> string \<Rightarrow> bool" where
  "is_domain_blocked allowed_domains blocked_domains qname =
     (let qname_cleaned = cleanup_domain qname in
      if qname_cleaned \<in> allowed_domains then False
      else if qname_cleaned \<in> blocked_domains then True
      else suffix_loop blocked_domains (split_sep CHR ''.'' qname_cleaned) 0)"

section \<open>Aggregation: \<open>load_domains_from_file\<close> and \<open>fetch_and_load_remote_blocklists\<close>\<close>

text \<open>\<open>str.splitlines\<close>: a line ends at LF, VT, FF, CR, CR LF, FS, GS, RS or NEL; the
  terminators are dropped and a terminator at the very end opens no further line.\<close>

definition linebreak :: "char \<Rightarrow> bool" where
  "linebreak c = (code c \<in> {10, 11, 12, 13, 28, 29, 30, 133})"

fun splitlines_from :: "string \<Rightarrow> string \<Rightarrow> string list" where
  "splitlines_from cur [] = (if cur = [] then [] else [cur])"
| "splitlines_from cur [c] = (if linebreak c then [cur] else [cur @ [c]])"
| "splitlines_from cur (c # d # ds) =
     (if c = CHR 0x0D \<and> d = CHR 0x0A then cur # splitlines_from [] ds
      else if linebreak c then cur # splitlines_from [] (d # ds)
      else splitlines_from (cur @ [c]) (d # ds))"

definition splitlines :: "string \<Rightarrow> string list" where
  "splitlines s = splitlines_from [] s"

text \<open>
  The body shared by the two line loops (\<open>for line in f\<close> and
  \<open>for line in response.text.splitlines()\<close>): a line is added when its clean-up is not
  empty.
\<close>

fun add_domains :: "string set \<Rightarrow> string list \<Rightarrow> string set" where
  "add_domains domains [] = domains"
| "add_domains domains (line # lines) =
     (let domain = cleanup_domain line
      in add_domains (if domain \<noteq> [] then insert domain domains else domains) lines)"

text \<open>\<open>load_domains_from_file\<close>: the argument is the list of lines that reading the file
  yields, \<open>None\<close> when the path does not exist.\<close>

definition load_domains_from_file :: "string list option \<Rightarrow> string set" where
  "load_domains_from_file file =
     (case file of None \<Rightarrow> {} | Some lines \<Rightarrow> add_domains {} lines)"

text \<open>
  What \<open>requests.get(url, timeout=15)\<close> does for one source: it raises \<open>Timeout\<close>, another
  \<open>RequestException\<close> or some other exception, or it returns a response with a status code
  and a text. \<open>raise_for_status\<close> raises for the codes 400 to 599.
\<close>

datatype fetch_outcome = Timeout | RequestException | OtherException | Response nat string

definition raise_for_status :: "nat \<Rightarrow> bool" where
  "raise_for_status status_code = (400 \<le> status_code \<and> status_code < 600)"

text \<open>The loop over \<open>blocklist_sources\<close>; each of the three handlers only prints.\<close>

fun fetch_loop :: "string set \<Rightarrow> fetch_outcome list \<Rightarrow> string set" where
  "fetch_loop temp_blocklist [] = temp_blocklist"
| "fetch_loop temp_blocklist (Response status_code text # rest) =
     (if raise_for_status status_code then fetch_loop temp_blocklist rest
      else fetch_loop (add_domains temp_blocklist (splitlines text)) rest)"
| "fetch_loop temp_blocklist (Timeout # rest) = fetch_loop temp_blocklist rest"
| "fetch_loop temp_blocklist (RequestException # rest) = fetch_loop temp_blocklist rest"
| "fetch_loop temp_blocklist (OtherException # rest) = fetch_loop temp_blocklist rest"

definition set_clear :: "string set \<Rightarrow> string set" where
  "set_clear s = {}"

definition set_update :: "string set \<Rightarrow> string set \<Rightarrow> string set" where
  "set_update s t = s \<union> t"

text \<open>\<open>fetch_and_load_remote_blocklists\<close>: from the outcome of each source's fetch, in the
  order of \<open>blocklist_sources\<close>, and the global set, to the global set afterwards.\<close>

definition fetch_and_load_remote_blocklists ::
    "fetch_outcome list \<Rightarrow> string set \<Rightarrow> string set" where
  "fetch_and_load_remote_blocklists outcomes blocked_domains =
     (let temp_blocklist = fetch_loop {} outcomes
      in set_update (set_clear blocked_domains) temp_blocklist)"

section \<open>The relay: \<open>dns_server\<close>\<close>

text \<open>
  The DNS codec is the library \<open>dnslib\<close>, which is not among the sources. Of a decoded
  message the relay touches the transaction id, the response code, the question and the
  answer section; \<open>qname\<close> is the text \<open>str(request.q.qname)\<close>. Of a resource record
  \<open>RR(name, QTYPE.A, rdata=A(address))\<close> the fields that the relay sets are kept; the
  others keep the library's defaults.
\<close>

type_synonym bytes = "char list"

type_synonym address = "string \<times> nat"

record DNSQuestion =
  qname :: string
  qtype :: nat
  qclass :: nat

datatype RD = A string

record RR =
  rname :: string
  rtype :: nat
  rdata :: RD

record DNSRecord =
  header_id :: nat
  header_rcode :: nat
  q :: DNSQuestion
  rr :: "RR list"

text \<open>
  Modelled from the spec: \<open>request.reply()\<close> of \<open>dnslib\<close>, which is not among the sources.
  It is the reply skeleton "reusing the request's transaction id and question section";
  it has no answer yet, and the header bits of the request, the response code among
  them, are carried over.
\<close>

definition reply :: "DNSRecord \<Rightarrow> DNSRecord" where
  "reply request =
     \<lparr>header_id = header_id request, header_rcode = header_rcode request,
      q = q request, rr = []\<rparr>"

text \<open>
  Modelled from the spec: \<open>reply.add_answer(rr)\<close> of \<open>dnslib\<close>, which is not among the
  sources. It appends one resource record to the answer section.
\<close>

definition add_answer :: "DNSRecord \<Rightarrow> RR \<Rightarrow> DNSRecord" where
  "add_answer record answer = record\<lparr>rr := rr record @ [answer]\<rparr>"

text \<open>Modelled from the spec: the constant \<open>QTYPE.A\<close> of \<open>dnslib\<close>, the number of the
  address record type.\<close>

definition QTYPE_A :: nat where
  "QTYPE_A = 1"

text \<open>
  The exceptions the handlers tell apart: \<open>socket.timeout\<close>, and any other \<open>Exception\<close>.
\<close>

datatype exn = socket_timeout | other_exception

text \<open>
  What the relay does to the outside is a list of events, one per call, in order.
  \<open>SendTo p a\<close> is the call \<open>sock.sendto(p, a)\<close> on the listening socket, where \<open>p\<close> is
  either \<open>reply.pack()\<close> of a message built here or bytes passed on unchanged;
  \<open>LogBlocked\<close> is \<open>log_blocked_domain\<close>, which catches its own exceptions; the
  \<open>Upstream\<close> events are the creation of the per-query socket and the calls on it.
\<close>

datatype payload = Packed DNSRecord | Raw bytes

datatype event =
    SendTo payload address
  | LogBlocked string
  | UpstreamOpen
  | UpstreamSendTo bytes
  | UpstreamRecvFrom
  | UpstreamClose

text \<open>
  What the outside does during one turn of the \<open>while True\<close> loop: the two global sets as
  \<open>is_domain_blocked\<close> finds them, the result of \<open>sock.recvfrom(512)\<close>, whether a
  \<open>sock.sendto\<close> raises, whether opening the upstream socket raises, and the results of
  \<open>upstream_sock.sendto\<close> and \<open>upstream_sock.recvfrom(512)\<close>.
\<close>

record world =
  allowed_domains :: "string set"
  blocked_domains :: "string set"
  recvfrom :: "exn + (bytes \<times> address)"
  sendto :: "payload \<Rightarrow> exn option"
  upstream_socket :: "exn option"
  upstream_sendto :: "exn option"
  upstream_recvfrom :: "exn + bytes"

text \<open>
  Each block of the loop body returns the events it caused and the exception, if any,
  that leaves it. First the branch taken when \<open>is_domain_blocked(qname)\<close> holds.
\<close>

definition sinkhole ::
    "world \<Rightarrow> DNSRecord \<Rightarrow> string \<Rightarrow> address \<Rightarrow> event list \<times> exn option" where
  "sinkhole w request name addr =
     (let answer = add_answer (reply request)
                     \<lparr>rname = name, rtype = QTYPE_A, rdata = A ''0.0.0.0''\<rparr>
      in ([LogBlocked name, SendTo (Packed answer) addr], sendto w (Packed answer)))"

text \<open>The body of the inner \<open>try\<close>: send upstream, receive, pass the answer on.\<close>

definition try_forward :: "world \<Rightarrow> bytes \<Rightarrow> address \<Rightarrow> event list \<times> exn option" where
  "try_forward w data addr =
     (case upstream_sendto w of
        Some e \<Rightarrow> ([UpstreamSendTo data], Some e)
      | None \<Rightarrow>
          (case upstream_recvfrom w of
             Inl e \<Rightarrow> ([UpstreamSendTo data, UpstreamRecvFrom], Some e)
           | Inr response_data \<Rightarrow>
               ([UpstreamSendTo data, UpstreamRecvFrom, SendTo (Raw response_data) addr],
                sendto w (Raw response_data))))"

text \<open>The body of both \<open>except\<close> clauses of the inner \<open>try\<close>; they differ in what they
  print.\<close>

definition send_servfail ::
    "world \<Rightarrow> DNSRecord \<Rightarrow> address \<Rightarrow> event list \<times> exn option" where
  "send_servfail w request addr =
     (let answer = (reply request)\<lparr>header_rcode := 2\<rparr>
      in ([SendTo (Packed answer) addr], sendto w (Packed answer)))"

text \<open>The \<open>else\<close> branch: the socket is created before the inner \<open>try\<close>, whose \<open>finally\<close>
  closes it.\<close>

definition forward ::
    "world \<Rightarrow> DNSRecord \<Rightarrow> bytes \<Rightarrow> address \<Rightarrow> event list \<times> exn option" where
  "forward w request data addr =
     (case upstream_socket w of
        Some e \<Rightarrow> ([], Some e)
      | None \<Rightarrow>
          (let (body, raised) = try_forward w data addr;
               (handler, escaped) =
                 (case raised of
                    None \<Rightarrow> ([], None)
                  | Some socket_timeout \<Rightarrow> send_servfail w request addr
                  | Some other_exception \<Rightarrow> send_servfail w request addr)
           in (UpstreamOpen # body @ handler @ [UpstreamClose], escaped)))"

text \<open>The body of the outer \<open>try\<close>. \<open>parse\<close> is \<open>DNSRecord.parse\<close>, \<open>None\<close> where it
  raises.\<close>

definition handle_datagram ::
    "(bytes \<Rightarrow> DNSRecord option) \<Rightarrow> world \<Rightarrow> event list \<times> exn option" where
  "handle_datagram parse w =
     (case recvfrom w of
        Inl e \<Rightarrow> ([], Some e)
      | Inr (data, addr) \<Rightarrow>
          (case parse data of
             None \<Rightarrow> ([], Some other_exception)
           | Some request \<Rightarrow>
               (let name = strip_chars ''.'' (qname (q request))
                in if is_domain_blocked (allowed_domains w) (blocked_domains w) name
                   then sinkhole w request name addr
                   else forward w request data addr)))"

text \<open>
  The loop \<open>while True\<close> on the bound socket, run for as many turns as the list of worlds
  is long: the outer \<open>except Exception\<close> prints whatever left the body, and the next turn
  begins.
\<close>

fun dns_server :: "(bytes \<Rightarrow> DNSRecord option) \<Rightarrow> world list \<Rightarrow> event list" where
  "dns_server parse [] = []"
| "dns_server parse (w # ws) = fst (handle_datagram parse w) @ dns_server parse ws"

section \<open>Notions of the specification\<close>

text \<open>A Domain: not empty, lowercase, made of \<open>a-z\<close>, \<open>0-9\<close>, dot and hyphen only, with
  neither of the last two at either end.\<close>

definition is_Domain :: "string \<Rightarrow> bool" where
  "is_Domain d =
     (d \<noteq> [] \<and> lower d = d
      \<and> (\<forall>c\<in>set d. c \<in> set ''abcdefghijklmnopqrstuvwxyz0123456789.-'')
      \<and> hd d \<noteq> CHR ''.'' \<and> hd d \<noteq> CHR ''-'' \<and> last d \<noteq> CHR ''.'' \<and> last d \<noteq> CHR ''-'')"

text \<open>The Domains a list of lines yields, and those one source contributes to a refresh:
  the ones of its lines if its fetch succeeded, none if it raised or the status code is
  one that \<open>raise_for_status\<close> rejects.\<close>

definition domains_of_lines :: "string list \<Rightarrow> string set" where
  "domains_of_lines lines = {d. d \<noteq> [] \<and> d \<in> cleanup_domain ` set lines}"

definition source_domains :: "fetch_outcome \<Rightarrow> string set" where
  "source_domains r =
     (case r of
        Response status_code text \<Rightarrow>
          if 400 \<le> status_code \<and> status_code < 600 then {}
          else domains_of_lines (splitlines text)
      | _ \<Rightarrow> {})"

text \<open>The forward to the upstream resolver fails: the send or the receive on the
  per-query socket raises, a timeout or anything else.\<close>

definition upstream_fails :: "world \<Rightarrow> bool" where
  "upstream_fails w =
     (case upstream_sendto w of
        Some e \<Rightarrow> True
      | None \<Rightarrow> (case upstream_recvfrom w of Inl e \<Rightarrow> True | Inr response_data \<Rightarrow> False))"

text \<open>The suffixes the comment in \<open>is_domain_blocked\<close> lists for the labels of a name:
  those of at least two labels, shortest first.\<close>

definition documented_candidates :: "string list \<Rightarrow> string list" where
  "documented_candidates parts =
     map (\<lambda>i. join ''.'' (drop i parts)) (rev [0 ..< length parts - 1])"

text \<open>A request and a world to run the relay on: a query for the AAAA record of
  \<open>ads.example.com\<close>, and an upstream resolver that does not answer.\<close>

definition example_request :: DNSRecord where
  "example_request =
     \<lparr>header_id = 4660, header_rcode = 0,
      q = \<lparr>qname = ''ads.example.com.'', qtype = 28, qclass = 1\<rparr>, rr = []\<rparr>"

definition example_world :: "string set \<Rightarrow> world" where
  "example_world blocked =
     \<lparr>allowed_domains = {}, blocked_domains = blocked,
      recvfrom = Inr (''datagram'', (''192.0.2.7'', 5353)),
      sendto = (\<lambda>p. None), upstream_socket = None, upstream_sendto = None,
      upstream_recvfrom = Inl socket_timeout\<rparr>"

section \<open>Facts about the string functions\<close>

lemma strip_where_all: "\<forall>c\<in>set s. P c \<Longrightarrow> strip_where P s = []"
  by (auto simp: strip_where_def dest: set_dropWhileD)

lemma dropWhile_snoc_keep: "\<not> P c \<Longrightarrow> dropWhile P (u @ [c]) = dropWhile P u @ [c]"
  by (induction u) auto

lemma strip_where_Cons: "\<not> P c \<Longrightarrow> strip_where P (c # s) = c # rev (dropWhile P (rev s))"
  by (simp add: strip_where_def dropWhile_snoc_keep)

lemma strip_where_hd: "strip_where P s \<noteq> [] \<Longrightarrow> \<not> P (hd (strip_where P s))"
proof -
  assume h: "strip_where P s \<noteq> []"
  have ne: "dropWhile P s \<noteq> []"
  proof
    assume "dropWhile P s = []"
    then have "strip_where P s = []" by (simp only: strip_where_def) simp
    with h show False by simp
  qed
  then obtain c t where ct: "dropWhile P s = c # t" by (cases "dropWhile P s") auto
  then have nc: "\<not> P c" using hd_dropWhile [of P s] ne by auto
  have "strip_where P s = strip_where P (c # t)"
    using ct nc by (simp add: strip_where_def)
  then show ?thesis using nc by (simp add: strip_where_Cons)
qed

lemma strip_where_last: "strip_where P s \<noteq> [] \<Longrightarrow> \<not> P (last (strip_where P s))"
proof -
  assume h: "strip_where P s \<noteq> []"
  let ?r = "dropWhile P (rev (dropWhile P s))"
  have eq: "strip_where P s = rev ?r" by (simp add: strip_where_def)
  have ne: "?r \<noteq> []" using h eq by auto
  have "\<not> P (hd ?r)" using hd_dropWhile [OF ne] .
  moreover have "last (rev ?r) = hd ?r" using ne by (simp add: last_rev)
  ultimately show ?thesis using eq by simp
qed

lemma strip_where_id: "s \<noteq> [] \<Longrightarrow> \<not> P (hd s) \<Longrightarrow> \<not> P (last s) \<Longrightarrow> strip_where P s = s"
proof -
  assume a: "s \<noteq> []" "\<not> P (hd s)" "\<not> P (last s)"
  have 1: "dropWhile P s = s" using a by (cases s) auto
  have "rev s \<noteq> []" "\<not> P (hd (rev s))" using a by (auto simp: hd_rev)
  then have 2: "dropWhile P (rev s) = rev s" by (cases "rev s") auto
  show ?thesis by (simp add: strip_where_def 1 2)
qed

lemma strip_where_subset: "c \<in> set (strip_where P s) \<Longrightarrow> c \<in> set s"
  unfolding strip_where_def set_rev
  by (drule set_dropWhileD, simp only: set_rev, drule set_dropWhileD)

lemma startswith_set: "startswith p s \<Longrightarrow> set p \<subseteq> set s"
  unfolding startswith_def by (metis set_take_subset)

lemma startswith_hash_lower:
  assumes "startswith ''#'' s"
  shows "startswith ''#'' (lower s)"
  using assms by (cases s) (auto simp: startswith_def lower_def lower_char_def code_def)

lemma split_ws_no_space:
  assumes "\<forall>c\<in>set s. \<not> isspace c"
  shows "length (split_ws s) \<le> 1"
proof (cases s)
  case Nil
  then show ?thesis by (subst split_ws.simps) simp
next
  case (Cons c cs)
  have d: "dropWhile isspace s = c # cs" using assms Cons by simp
  have t: "dropWhile (\<lambda>x. \<not> isspace x) cs = []" using assms Cons by simp
  have e: "split_ws [] = []" by (subst split_ws.simps) simp
  show ?thesis by (subst split_ws.simps) (simp only: d t e list.case, simp)
qed

lemma split_sep_Nil: "split_sep sep [] = [[]]"
  by (simp add: split_sep.simps)

lemma split_sep_not_Nil: "split_sep sep s \<noteq> []"
  by (subst split_sep.simps) (simp split: list.splits)

lemma split_sep_Cons:
  "split_sep sep (c # cs) =
     (if c = sep then [] # split_sep sep cs
      else (c # hd (split_sep sep cs)) # tl (split_sep sep cs))"
proof (cases "c = sep")
  case True
  then show ?thesis by (subst split_sep.simps) simp
next
  case False
  have d: "dropWhile (\<lambda>x. x \<noteq> sep) (c # cs) = dropWhile (\<lambda>x. x \<noteq> sep) cs"
    using False by simp
  have t: "takeWhile (\<lambda>x. x \<noteq> sep) (c # cs) = c # takeWhile (\<lambda>x. x \<noteq> sep) cs"
    using False by simp
  show ?thesis
  proof (cases "dropWhile (\<lambda>x. x \<noteq> sep) cs")
    case Nil
    have e1: "split_sep sep (c # cs) = [c # cs]"
      by (subst split_sep.simps) (simp only: d Nil list.case)
    have e2: "split_sep sep cs = [cs]"
      by (subst split_sep.simps) (simp only: Nil list.case)
    show ?thesis using False by (simp add: e1 e2)
  next
    case (Cons a rest)
    have e1: "split_sep sep (c # cs) =
                (c # takeWhile (\<lambda>x. x \<noteq> sep) cs) # split_sep sep rest"
      by (subst split_sep.simps) (simp only: d t Cons list.case)
    have e2: "split_sep sep cs = takeWhile (\<lambda>x. x \<noteq> sep) cs # split_sep sep rest"
      by (subst split_sep.simps) (simp only: Cons list.case)
    show ?thesis using False by (simp add: e1 e2)
  qed
qed

lemma split_sep_append:
  "split_sep sep (p @ sep # d) = split_sep sep p @ split_sep sep d"
proof (induction p)
  case Nil
  then show ?case by (simp add: split_sep_Cons split_sep_Nil)
next
  case (Cons c p)
  have ne: "split_sep sep p \<noteq> []" by (rule split_sep_not_Nil)
  show ?case using Cons ne
    by (cases "split_sep sep p") (simp_all add: split_sep_Cons)
qed

lemma join_Cons_ne: "ws \<noteq> [] \<Longrightarrow> join sep (w # ws) = w @ sep @ join sep ws"
  by (cases ws) simp_all

lemma join_split_sep: "join [sep] (split_sep sep s) = s"
proof (induction s)
  case Nil
  then show ?case by (simp add: split_sep_Nil)
next
  case (Cons c s)
  have ne: "split_sep sep s \<noteq> []" by (rule split_sep_not_Nil)
  then obtain w ws where w: "split_sep sep s = w # ws" by (cases "split_sep sep s") auto
  show ?case
  proof (cases "c = sep")
    case True
    then show ?thesis using Cons ne by (simp add: split_sep_Cons join_Cons_ne)
  next
    case False
    then show ?thesis using Cons w by (cases ws) (simp_all add: split_sep_Cons)
  qed
qed

section \<open>Facts about \<open>cleanup_domain\<close>\<close>

lemma domain_char_lower: "domain_char c \<Longrightarrow> lower_char c = c"
  unfolding domain_char_def lower_char_def code_def by auto

lemma domain_char_not_space: "domain_char c \<Longrightarrow> \<not> isspace c"
  unfolding domain_char_def isspace_def code_def by auto

lemma cleanup_domain_shape:
  "cleanup_domain x = [] \<or> (\<exists>t. cleanup_domain x = strip_chars ''-.'' (filter domain_char t))"
  unfolding cleanup_domain_def Let_def by (simp only: split: if_splits) blast

lemma cleanup_domain_chars: "c \<in> set (cleanup_domain x) \<Longrightarrow> domain_char c"
proof -
  assume h: "c \<in> set (cleanup_domain x)"
  then have "cleanup_domain x \<noteq> []" by auto
  then obtain t where "cleanup_domain x = strip_chars ''-.'' (filter domain_char t)"
    using cleanup_domain_shape [of x] by blast
  then have "c \<in> set (strip_where (\<lambda>c. c \<in> set ''-.'') (filter domain_char t))"
    using h by (simp only: strip_chars_def)
  then have "c \<in> set (filter domain_char t)"
    by (rule strip_where_subset)
  then show ?thesis by simp
qed

lemma cleanup_domain_ends:
  "cleanup_domain x \<noteq> [] \<Longrightarrow>
     hd (cleanup_domain x) \<notin> set ''-.'' \<and> last (cleanup_domain x) \<notin> set ''-.''"
proof -
  assume ne: "cleanup_domain x \<noteq> []"
  then obtain t where
    t: "cleanup_domain x = strip_where (\<lambda>c. c \<in> set ''-.'') (filter domain_char t)"
    using cleanup_domain_shape [of x] by (auto simp: strip_chars_def)
  show ?thesis
    using strip_where_hd [of "\<lambda>c. c \<in> set ''-.''" "filter domain_char t"]
          strip_where_last [of "\<lambda>c. c \<in> set ''-.''" "filter domain_char t"] ne
    unfolding t by blast
qed

lemma cleanup_domain_is_Domain: "cleanup_domain x \<noteq> [] \<Longrightarrow> is_Domain (cleanup_domain x)"
proof -
  assume ne: "cleanup_domain x \<noteq> []"
  have ch: "\<forall>c\<in>set (cleanup_domain x). domain_char c"
    using cleanup_domain_chars by blast
  then have "lower (cleanup_domain x) = cleanup_domain x"
    by (simp add: lower_def domain_char_lower map_idI)
  moreover have
    "\<forall>c\<in>set (cleanup_domain x). c \<in> set ''abcdefghijklmnopqrstuvwxyz0123456789.-''"
    using ch by (simp only: domain_char_def)
  moreover have "hd (cleanup_domain x) \<noteq> CHR ''.'' \<and> hd (cleanup_domain x) \<noteq> CHR ''-''
               \<and> last (cleanup_domain x) \<noteq> CHR ''.'' \<and> last (cleanup_domain x) \<noteq> CHR ''-''"
    using cleanup_domain_ends [OF ne] by auto
  ultimately show ?thesis using ne unfolding is_Domain_def by blast
qed

lemma cleanup_domain_fixpoint:
  assumes c: "is_Domain y" and w: "\<not> startswith ''www.'' y"
  shows "cleanup_domain y = y"
proof -
  have ne: "y \<noteq> []" and low: "lower y = y"
    and chars: "\<forall>c\<in>set y. domain_char c"
    and ends: "hd y \<noteq> CHR ''.''" "hd y \<noteq> CHR ''-''" "last y \<noteq> CHR ''.''" "last y \<noteq> CHR ''-''"
    using c unfolding is_Domain_def domain_char_def by blast+
  have hd_in: "hd y \<in> set y" and last_in: "last y \<in> set y" using ne by simp_all
  have nosp: "\<forall>c\<in>set y. \<not> isspace c" using chars domain_char_not_space by blast
  have s1: "strip y = y"
    unfolding strip_def using ne nosp hd_in last_in by (intro strip_where_id) auto
  have "\<not> domain_char CHR ''#''" "\<not> domain_char CHR '':''" "\<not> domain_char CHR ''/''"
    by (simp_all add: domain_char_def)
  then have hash_in: "CHR ''#'' \<notin> set y" and colon: "CHR '':'' \<notin> set y"
    and slash: "CHR ''/'' \<notin> set y"
    using chars by blast+
  have hash: "\<not> startswith ''#'' y"
  proof
    assume "startswith ''#'' y"
    then have "set ''#'' \<subseteq> set y" by (rule startswith_set)
    then show False using hash_in by simp
  qed
  have parts: "\<not> Suc 0 < length (split_ws y)" using split_ws_no_space [OF nosp] by simp
  have h1: "\<not> startswith ''https://'' y"
  proof
    assume "startswith ''https://'' y"
    then have "set ''https://'' \<subseteq> set y" by (rule startswith_set)
    then show False using colon by simp
  qed
  have h2: "\<not> startswith ''http://'' y"
  proof
    assume "startswith ''http://'' y"
    then have "set ''http://'' \<subseteq> set y" by (rule startswith_set)
    then show False using colon by simp
  qed
  from h1 h2 have s2: "sub_scheme_www y = y"
    using w by (simp add: sub_scheme_www_def remove_prefix_def)
  have s3: "filter domain_char y = y" using chars by simp
  have s4: "strip_chars ''-.'' y = y"
    unfolding strip_chars_def using ne ends by (intro strip_where_id) auto
  show ?thesis
    unfolding cleanup_domain_def Let_def
    by (simp only: s1 low) (simp add: ne hash parts s2 slash s3 s4)
qed

section \<open>Facts about the aggregation\<close>

lemma add_domains_eq:
  "add_domains domains lines = domains \<union> domains_of_lines lines"
  by (induction lines arbitrary: domains) (auto simp: Let_def domains_of_lines_def)

lemma fetch_loop_eq:
  "fetch_loop temp outcomes = temp \<union> (\<Union>r\<in>set outcomes. source_domains r)"
  by (induction temp outcomes rule: fetch_loop.induct)
     (simp_all add: add_domains_eq source_domains_def raise_for_status_def Un_assoc)

lemma fetch_and_load_eq:
  "fetch_and_load_remote_blocklists outcomes old = (\<Union>r\<in>set outcomes. source_domains r)"
  by (simp add: fetch_and_load_remote_blocklists_def set_clear_def set_update_def fetch_loop_eq)

lemma domains_of_lines_Domain: "d \<in> domains_of_lines lines \<Longrightarrow> is_Domain d"
  by (auto simp: domains_of_lines_def cleanup_domain_is_Domain)

lemma source_domains_Domain: "d \<in> source_domains r \<Longrightarrow> is_Domain d"
  by (cases r) (auto simp: source_domains_def domains_of_lines_Domain split: if_splits)

lemma fetch_and_load_Domain:
  "d \<in> fetch_and_load_remote_blocklists outcomes old \<Longrightarrow> is_Domain d"
  by (auto simp: fetch_and_load_eq source_domains_Domain)

lemma load_domains_Domain: "d \<in> load_domains_from_file file \<Longrightarrow> is_Domain d"
  by (auto simp: load_domains_from_file_def add_domains_eq domains_of_lines_Domain
           split: option.splits)

section \<open>The normaliser\<close>

text \<open>
  Claim C7. A raw line that is empty, that consists of whitespace only, or whose trimmed
  form begins with the comment marker \<open>#\<close>, is normalised to the empty string.
\<close>

theorem blank_or_comment_line_is_rejected:
  assumes "L = [] \<or> (\<forall>c\<in>set L. isspace c) \<or> startswith ''#'' (strip L)"
  shows "cleanup_domain L = []"
proof -
  consider (empty) "L = []" | (blank) "\<forall>c\<in>set L. isspace c"
    | (comment) "startswith ''#'' (strip L)"
    using assms by blast
  then show ?thesis
  proof cases
    case empty
    then show ?thesis
      by (simp add: cleanup_domain_def strip_def strip_where_def lower_def)
  next
    case blank
    then have "strip L = []" by (simp add: strip_def strip_where_all)
    then show ?thesis by (simp add: cleanup_domain_def lower_def)
  next
    case comment
    then have "startswith ''#'' (lower (strip L))" by (rule startswith_hash_lower)
    then show ?thesis by (simp add: cleanup_domain_def)
  qed
qed

theorem blank_or_comment_line_is_rejected_witness:
  "cleanup_domain [] = [] \<and> isspace CHR '' '' \<and> isspace CHR 0x09
   \<and> cleanup_domain [CHR '' '', CHR 0x09] = []
   \<and> startswith ''#'' (strip ''  # Title: hosts'') \<and> cleanup_domain ''  # Title: hosts'' = []"
proof -
  have sp: "isspace CHR '' ''" "isspace CHR 0x09" by (simp_all add: isspace_def code_def)
  have st: "startswith ''#'' (strip ''  # Title: hosts'')" by code_simp
  have "cleanup_domain [] = []"
    using blank_or_comment_line_is_rejected [of "[]"] by simp
  moreover have "cleanup_domain [CHR '' '', CHR 0x09] = []"
    using blank_or_comment_line_is_rejected [of "[CHR '' '', CHR 0x09]"] sp by simp
  moreover have "cleanup_domain ''  # Title: hosts'' = []"
    using blank_or_comment_line_is_rejected [of "''  # Title: hosts''"] st by simp
  ultimately show ?thesis using sp st by simp
qed

text \<open>
  Claim C8. Every non-empty result of the normaliser is a Domain: it is lowercase, has no
  character outside \<open>[a-z0-9.-]\<close> and neither begins nor ends with a dot or a hyphen.
  Hence every member of the set that a refresh leaves in \<open>blocked_domains\<close>, and every
  member of the set that \<open>load_domains_from_file\<close> builds for \<open>allowed_domains\<close>, is a
  Domain.
\<close>

theorem normalised_names_are_Domains:
  "(cleanup_domain x \<noteq> [] \<longrightarrow> is_Domain (cleanup_domain x))
   \<and> (\<forall>d \<in> fetch_and_load_remote_blocklists outcomes old. is_Domain d)
   \<and> (\<forall>d \<in> load_domains_from_file file. is_Domain d)"
  using cleanup_domain_is_Domain fetch_and_load_Domain load_domains_Domain by blast

theorem normalised_names_are_Domains_witness:
  "cleanup_domain ''||Ads.Example.com^$third-party'' = ''ads.example.comthird-party''
   \<and> is_Domain ''ads.example.comthird-party''
   \<and> ''example.com'' \<in> fetch_and_load_remote_blocklists [Response 200 ''0.0.0.0 Example.COM''] {}
   \<and> ''example.com'' \<in> load_domains_from_file (Some [''http://www.example.com/path''])
   \<and> is_Domain ''example.com''"
proof -
  have e: "cleanup_domain ''||Ads.Example.com^$third-party'' = ''ads.example.comthird-party''"
    by code_simp
  have f: "''example.com'' \<in>
             fetch_and_load_remote_blocklists [Response 200 ''0.0.0.0 Example.COM''] {}"
    by code_simp
  have g: "''example.com'' \<in> load_domains_from_file (Some [''http://www.example.com/path''])"
    by code_simp
  note t = normalised_names_are_Domains
             [of "''||Ads.Example.com^$third-party''"
                 "[Response 200 ''0.0.0.0 Example.COM'']" "{}"
                 "Some [''http://www.example.com/path'']"]
  from t e have "is_Domain ''ads.example.comthird-party''" by simp
  moreover from t f have "is_Domain ''example.com''" by blast
  ultimately show ?thesis using e f g by simp
qed

text \<open>
  Claim C3, as amended. The normaliser is idempotent on those of its non-empty results that
  do not begin with \<open>www.\<close>: for every input \<open>x\<close> whose normal form is such a name,
  normalising the normal form again returns it unchanged.
\<close>

theorem cleanup_domain_idempotent_unless_www:
  assumes "cleanup_domain x \<noteq> []" and "\<not> startswith ''www.'' (cleanup_domain x)"
  shows "cleanup_domain (cleanup_domain x) = cleanup_domain x"
proof -
  have "is_Domain (cleanup_domain x)"
    using assms(1) by (rule cleanup_domain_is_Domain)
  then show ?thesis
    using assms(2) by (rule cleanup_domain_fixpoint)
qed

theorem cleanup_domain_idempotent_unless_www_witness:
  "cleanup_domain ''http://www.Example.com/path'' = ''example.com''
   \<and> \<not> startswith ''www.'' ''example.com''
   \<and> cleanup_domain ''example.com'' = ''example.com''"
proof -
  have e: "cleanup_domain ''http://www.Example.com/path'' = ''example.com''" by code_simp
  have n: "\<not> startswith ''www.'' ''example.com''" by code_simp
  show ?thesis
    using cleanup_domain_idempotent_unless_www [of "''http://www.Example.com/path''"] e n
    by simp
qed

text \<open>
  Claim C3 as stated fails: the line \<open>www.www.example.com\<close> is normalised to the non-empty
  name \<open>www.example.com\<close>, from which a second pass removes the prefix \<open>www.\<close> once more.
\<close>

theorem cleanup_domain_not_idempotent:
  "cleanup_domain ''www.www.example.com'' = ''www.example.com''
   \<and> cleanup_domain ''www.example.com'' = ''example.com''
   \<and> cleanup_domain (cleanup_domain ''www.www.example.com'')
       \<noteq> cleanup_domain ''www.www.example.com''"
  by code_simp

section \<open>The classifier\<close>

lemma suffix_loop_iff:
  "suffix_loop blocked parts i =
     (\<exists>j. i \<le> j \<and> j < length parts \<and> join ''.'' (drop j parts) \<in> blocked)"
proof (induction blocked parts i rule: suffix_loop.induct)
  case (1 blocked parts i)
  show ?case
  proof (cases "i < length parts")
    case False
    then show ?thesis by (subst suffix_loop.simps) auto
  next
    case True
    show ?thesis
    proof (cases "join ''.'' (drop i parts) \<in> blocked")
      case True
      then show ?thesis using \<open>i < length parts\<close> by (subst suffix_loop.simps) auto
    next
      case False
      have "suffix_loop blocked parts i = suffix_loop blocked parts (Suc i)"
        using False True by (subst suffix_loop.simps) simp
      also have "\<dots> =
          (\<exists>j. Suc i \<le> j \<and> j < length parts \<and> join ''.'' (drop j parts) \<in> blocked)"
        using 1 True False by simp
      also have "\<dots> =
          (\<exists>j. i \<le> j \<and> j < length parts \<and> join ''.'' (drop j parts) \<in> blocked)"
        using False by (metis Suc_leD Suc_leI le_neq_implies_less)
      finally show ?thesis .
    qed
  qed
qed

lemma is_domain_blocked_iff:
  "is_domain_blocked allowed blocked name =
     (cleanup_domain name \<notin> allowed \<and>
      (\<exists>j < length (split_sep CHR ''.'' (cleanup_domain name)).
          join ''.'' (drop j (split_sep CHR ''.'' (cleanup_domain name))) \<in> blocked))"
proof -
  have "cleanup_domain name \<in> blocked \<Longrightarrow>
     (\<exists>j < length (split_sep CHR ''.'' (cleanup_domain name)).
          join ''.'' (drop j (split_sep CHR ''.'' (cleanup_domain name))) \<in> blocked)"
    using join_split_sep [of "CHR ''.''" "cleanup_domain name"]
          split_sep_not_Nil [of "CHR ''.''" "cleanup_domain name"]
    by (intro exI [of _ 0]) simp
  then show ?thesis
    by (auto simp: is_domain_blocked_def Let_def suffix_loop_iff)
qed

text \<open>
  Claim C1, as amended. For every name \<open>d\<close> in the blocklist and every string \<open>s\<close> whose
  normal form ends with a dot followed by \<open>d\<close>, \<open>s\<close> is blocked, unless the normal form of
  \<open>s\<close> itself is in the allowlist, in which case \<open>s\<close> is allowed.
\<close>

theorem subdomain_of_blocked_domain_is_blocked:
  assumes "d \<in> blocked" and "cleanup_domain s = p @ ''.'' @ d"
  shows "is_domain_blocked allowed blocked s = (cleanup_domain s \<notin> allowed)"
proof -
  let ?parts = "split_sep CHR ''.'' (cleanup_domain s)"
  have parts: "?parts = split_sep CHR ''.'' p @ split_sep CHR ''.'' d"
    using assms(2) split_sep_append [of "CHR ''.''" p d] by simp
  let ?j = "length (split_sep CHR ''.'' p)"
  have "?j < length ?parts" using parts split_sep_not_Nil [of "CHR ''.''" d] by simp
  moreover have "join ''.'' (drop ?j ?parts) = d"
    using parts join_split_sep [of "CHR ''.''" d] by simp
  ultimately have "\<exists>j < length ?parts. join ''.'' (drop j ?parts) \<in> blocked"
    using assms(1) by blast
  then show ?thesis by (simp add: is_domain_blocked_iff)
qed

theorem subdomain_of_blocked_domain_is_blocked_witness:
  "cleanup_domain ''Ads.Example.com.'' = ''ads'' @ ''.'' @ ''example.com''
   \<and> is_domain_blocked {} {''example.com''} ''Ads.Example.com.''
   \<and> \<not> is_domain_blocked {''ads.example.com''} {''example.com''} ''Ads.Example.com.''"
proof -
  have e: "cleanup_domain ''Ads.Example.com.'' = ''ads'' @ ''.'' @ ''example.com''"
    by code_simp
  have b: "''example.com'' \<in> {''example.com''}" by simp
  have "is_domain_blocked {} {''example.com''} ''Ads.Example.com.''"
    using subdomain_of_blocked_domain_is_blocked [OF b e, of "{}"] by simp
  moreover have
    "\<not> is_domain_blocked {''ads.example.com''} {''example.com''} ''Ads.Example.com.''"
    using subdomain_of_blocked_domain_is_blocked [OF b e, of "{''ads.example.com''}"] e
    by simp
  ultimately show ?thesis using e by simp
qed

text \<open>
  Claim C1 as stated fails twice. With \<open>example.com\<close> blocked and its subdomain
  \<open>b.example.com\<close> allowlisted, the name \<open>a.b.example.com\<close> has an intermediate suffix in
  the allowlist and is blocked all the same: only the name itself is looked up there. And
  the string \<open>a/b.example.com\<close> ends with \<open>.example.com\<close> but is allowed, because it is
  its normal form \<open>a\<close> that is classified.
\<close>

theorem allowlisted_suffix_does_not_allow:
  "''a.b.example.com'' = ''a.b'' @ ''.'' @ ''example.com''
   \<and> ''a.b.example.com'' = ''a'' @ ''.'' @ ''b.example.com''
   \<and> is_domain_blocked {''b.example.com''} {''example.com''} ''a.b.example.com''
   \<and> ''a/b.example.com'' = ''a/b'' @ ''.'' @ ''example.com''
   \<and> cleanup_domain ''a/b.example.com'' = ''a''
   \<and> \<not> is_domain_blocked {} {''example.com''} ''a/b.example.com''"
  by code_simp

text \<open>
  Claim C2. The loop of \<open>is_domain_blocked\<close> runs \<open>i\<close> over every index of \<open>parts\<close>, the
  last one included, so the suffix of a single label is tested too: with \<open>com\<close> in the
  blocklist, \<open>example.com\<close> is blocked, although it is in neither set and none of the
  suffixes of two or more labels that the comment above the loop lists is blocked.
\<close>

theorem single_label_suffix_blocks:
  "is_domain_blocked {} {''com''} ''example.com''
   \<and> cleanup_domain ''example.com'' \<notin> {''com''}
   \<and> documented_candidates (split_sep CHR ''.'' (cleanup_domain ''example.com''))
       = [''example.com'']
   \<and> list_all (\<lambda>c. c \<notin> {''com''})
        (documented_candidates (split_sep CHR ''.'' (cleanup_domain ''example.com'')))"
  by code_simp

section \<open>The refresh\<close>

text \<open>
  Claim C5. Whatever the fetches do, the refresh returns, and it leaves in
  \<open>blocked_domains\<close> exactly the non-empty normal forms of the lines of the sources that
  were fetched successfully. A source whose fetch raises (a timeout, another request
  error, anything else) or whose status code \<open>raise_for_status\<close> rejects (400 to 599)
  contributes nothing and stops nothing, and nothing of the previous set is kept: the
  result does not depend on it.
\<close>

theorem refresh_is_union_of_successful_sources:
  "fetch_and_load_remote_blocklists outcomes old =
     {d. d \<noteq> [] \<and>
         (\<exists>status_code text line.
             Response status_code text \<in> set outcomes
           \<and> \<not> (400 \<le> status_code \<and> status_code < 600)
           \<and> line \<in> set (splitlines text)
           \<and> d = cleanup_domain line)}"
proof -
  have src: "source_domains r =
      {d. d \<noteq> [] \<and>
          (\<exists>status_code text line.
              r = Response status_code text
            \<and> \<not> (400 \<le> status_code \<and> status_code < 600)
            \<and> line \<in> set (splitlines text)
            \<and> d = cleanup_domain line)}" for r
    by (cases r) (auto simp: source_domains_def domains_of_lines_def)
  show ?thesis
    unfolding fetch_and_load_eq src by blast
qed

lemma refresh_example:
  "fetch_and_load_remote_blocklists
      [Response 500 ''lost.example'', Timeout,
       Response 200 (''# hosts'' @ [CHR 0x0A] @ ''0.0.0.0 Ads.Example.com'')]
      {''old.example''}
   = {''ads.example.com''}"
  by code_simp

section \<open>The relay\<close>

lemma dns_server_append:
  "dns_server parse (ws @ vs) = dns_server parse ws @ dns_server parse vs"
  by (induction ws) simp_all

lemma example_is_blocked:
  "is_domain_blocked {} {''example.com''} (strip_chars ''.'' ''ads.example.com.'')"
  by code_simp

lemma example_is_allowed:
  "\<not> is_domain_blocked {} {} (strip_chars ''.'' ''ads.example.com.'')"
  by code_simp

lemma example_name: "strip_chars ''.'' ''ads.example.com.'' = ''ads.example.com''"
  by code_simp

text \<open>
  Claim C9. A datagram that \<open>DNSRecord.parse\<close> rejects causes no call at all, so no reply
  goes to its origin; the loop goes on, and serves the datagrams before and after it as
  if it had not arrived.
\<close>

theorem undecodable_datagram_is_dropped:
  assumes "recvfrom w = Inr (data, addr)" and "parse data = None"
  shows "fst (handle_datagram parse w) = []
       \<and> dns_server parse (before @ w # after)
           = dns_server parse before @ dns_server parse after"
proof -
  have "fst (handle_datagram parse w) = []"
    using assms by (simp add: handle_datagram_def)
  then show ?thesis by (simp add: dns_server_append)
qed

theorem undecodable_datagram_is_dropped_witness:
  "recvfrom (example_world {}) = Inr (''datagram'', (''192.0.2.7'', 5353))
   \<and> fst (handle_datagram (\<lambda>d. None) (example_world {})) = []
   \<and> dns_server (\<lambda>d. None) [example_world {}, example_world {}] = []"
proof -
  have r: "recvfrom (example_world {}) = Inr (''datagram'', (''192.0.2.7'', 5353))"
    by (simp add: example_world_def)
  have n: "(\<lambda>d. None :: DNSRecord option) ''datagram'' = None" by simp
  show ?thesis
    using undecodable_datagram_is_dropped [OF r n, of "[]" "[example_world {}]"]
          undecodable_datagram_is_dropped [OF r n, of "[]" "[]"] r
    by simp
qed

text \<open>
  Claim C10. For a decodable query whose name is blocked, whatever its record type, the
  relay logs the name and sends one reply to the origin: the reply has the request's
  transaction id and question, and its answer section is the single record of type A
  with the address \<open>0.0.0.0\<close>.
\<close>

theorem blocked_query_gets_sinkhole_reply:
  assumes "recvfrom w = Inr (data, addr)" and "parse data = Some request"
    and "is_domain_blocked (allowed_domains w) (blocked_domains w)
           (strip_chars ''.'' (qname (q request)))"
  shows "fst (handle_datagram parse w) =
      [LogBlocked (strip_chars ''.'' (qname (q request))),
       SendTo (Packed \<lparr>header_id = header_id request, header_rcode = header_rcode request,
                       q = q request,
                       rr = [\<lparr>rname = strip_chars ''.'' (qname (q request)), rtype = 1,
                              rdata = A ''0.0.0.0''\<rparr>]\<rparr>) addr]"
  using assms
  by (simp add: handle_datagram_def sinkhole_def reply_def add_answer_def QTYPE_A_def Let_def)

theorem blocked_query_gets_sinkhole_reply_witness:
  "qtype (q example_request) = 28
   \<and> fst (handle_datagram (\<lambda>d. Some example_request) (example_world {''example.com''})) =
     [LogBlocked ''ads.example.com'',
      SendTo (Packed \<lparr>header_id = 4660, header_rcode = 0,
                      q = \<lparr>qname = ''ads.example.com.'', qtype = 28, qclass = 1\<rparr>,
                      rr = [\<lparr>rname = ''ads.example.com'', rtype = 1,
                             rdata = A ''0.0.0.0''\<rparr>]\<rparr>)
             (''192.0.2.7'', 5353)]"
proof -
  have b: "is_domain_blocked (allowed_domains (example_world {''example.com''}))
             (blocked_domains (example_world {''example.com''}))
             (strip_chars ''.'' (qname (q example_request)))"
    using example_is_blocked by (simp add: example_world_def example_request_def)
  have r: "recvfrom (example_world {''example.com''})
             = Inr (''datagram'', (''192.0.2.7'', 5353))"
    by (simp add: example_world_def)
  have p: "(\<lambda>d. Some example_request) ''datagram'' = Some example_request" by simp
  show ?thesis
    using blocked_query_gets_sinkhole_reply [OF r p b] example_name
    by (simp add: example_request_def)
qed

text \<open>
  Claim C6, as amended. Take a decodable query whose name is not blocked, and let the
  per-query upstream socket have been created. If the send to the upstream resolver or
  the receive from it raises, a timeout or any other exception, then the relay sends the
  origin a reply with the response code 2 (SERVFAIL), the request's transaction id and
  the request's question, and then closes the socket; nothing else is sent to the
  origin. And whether the forward fails or not, the socket is opened first, closed last,
  and closed once.
\<close>

theorem upstream_failure_gets_servfail:
  assumes "recvfrom w = Inr (data, addr)" and "parse data = Some request"
    and "\<not> is_domain_blocked (allowed_domains w) (blocked_domains w)
             (strip_chars ''.'' (qname (q request)))"
    and "upstream_socket w = None"
  shows "(upstream_fails w \<longrightarrow>
            (\<exists>calls. fst (handle_datagram parse w) =
                  UpstreamOpen # calls
                  @ [SendTo (Packed \<lparr>header_id = header_id request, header_rcode = 2,
                                     q = q request, rr = []\<rparr>) addr,
                     UpstreamClose]
               \<and> set calls \<subseteq> {UpstreamSendTo data, UpstreamRecvFrom}))
       \<and> (\<exists>calls. fst (handle_datagram parse w) = UpstreamOpen # calls @ [UpstreamClose]
               \<and> UpstreamOpen \<notin> set calls \<and> UpstreamClose \<notin> set calls)"
proof -
  have h: "handle_datagram parse w = forward w request data addr"
    using assms(1-3) by (simp add: handle_datagram_def)
  have fails: "\<exists>calls. fst (forward w request data addr) =
                  UpstreamOpen # calls
                  @ [SendTo (Packed \<lparr>header_id = header_id request, header_rcode = 2,
                                     q = q request, rr = []\<rparr>) addr,
                     UpstreamClose]
               \<and> set calls \<subseteq> {UpstreamSendTo data, UpstreamRecvFrom}"
    if "upstream_fails w"
    using that assms(4)
    by (auto simp: forward_def try_forward_def send_servfail_def reply_def upstream_fails_def
             Let_def split: option.splits sum.splits exn.splits)
  have closes: "\<exists>calls. fst (forward w request data addr) = UpstreamOpen # calls @ [UpstreamClose]
               \<and> UpstreamOpen \<notin> set calls \<and> UpstreamClose \<notin> set calls"
    using assms(4)
    by (auto simp: forward_def try_forward_def send_servfail_def Let_def
             split: option.splits sum.splits exn.splits)
  show ?thesis
    unfolding h using fails closes by blast
qed

theorem upstream_failure_gets_servfail_witness:
  "upstream_fails (example_world {})
   \<and> fst (handle_datagram (\<lambda>d. Some example_request) (example_world {})) =
     [UpstreamOpen, UpstreamSendTo ''datagram'', UpstreamRecvFrom,
      SendTo (Packed \<lparr>header_id = 4660, header_rcode = 2,
                      q = \<lparr>qname = ''ads.example.com.'', qtype = 28, qclass = 1\<rparr>,
                      rr = []\<rparr>)
             (''192.0.2.7'', 5353),
      UpstreamClose]"
proof -
  have b: "\<not> is_domain_blocked (allowed_domains (example_world {}))
             (blocked_domains (example_world {}))
             (strip_chars ''.'' (qname (q example_request)))"
    using example_is_allowed by (simp add: example_world_def example_request_def)
  have r: "recvfrom (example_world {}) = Inr (''datagram'', (''192.0.2.7'', 5353))"
    by (simp add: example_world_def)
  have p: "(\<lambda>d. Some example_request) ''datagram'' = Some example_request" by simp
  have s: "upstream_socket (example_world {}) = None" by (simp add: example_world_def)
  have f: "upstream_fails (example_world {})"
    by (simp add: upstream_fails_def example_world_def)
  have e: "fst (handle_datagram (\<lambda>d. Some example_request) (example_world {})) =
     [UpstreamOpen, UpstreamSendTo ''datagram'', UpstreamRecvFrom,
      SendTo (Packed \<lparr>header_id = 4660, header_rcode = 2,
                      q = \<lparr>qname = ''ads.example.com.'', qtype = 28, qclass = 1\<rparr>,
                      rr = []\<rparr>)
             (''192.0.2.7'', 5353),
      UpstreamClose]"
    using b r
    by (simp add: handle_datagram_def forward_def try_forward_def send_servfail_def
                  reply_def example_world_def example_request_def Let_def)
  show ?thesis
    using upstream_failure_gets_servfail [OF r p b s] f e by simp
qed

text \<open>
  Claim C6 as stated fails where the forward fails before the exchange begins. The
  per-query socket is created before the inner \<open>try\<close>; when its creation raises, neither
  \<open>except\<close> clause of the inner \<open>try\<close> runs, the outer handler only prints, and the origin
  of a decodable, allowed query gets no reply at all.
\<close>

theorem no_servfail_when_socket_creation_fails:
  "recvfrom ((example_world {})\<lparr>upstream_socket := Some other_exception\<rparr>)
     = Inr (''datagram'', (''192.0.2.7'', 5353))
   \<and> \<not> is_domain_blocked
         (allowed_domains ((example_world {})\<lparr>upstream_socket := Some other_exception\<rparr>))
         (blocked_domains ((example_world {})\<lparr>upstream_socket := Some other_exception\<rparr>))
         (strip_chars ''.'' (qname (q example_request)))
   \<and> upstream_socket ((example_world {})\<lparr>upstream_socket := Some other_exception\<rparr>)
       = Some other_exception
   \<and> handle_datagram (\<lambda>d. Some example_request)
         ((example_world {})\<lparr>upstream_socket := Some other_exception\<rparr>)
       = ([], Some other_exception)
   \<and> dns_server (\<lambda>d. Some example_request)
         [(example_world {})\<lparr>upstream_socket := Some other_exception\<rparr>]
       = []"
proof -
  have b: "\<not> is_domain_blocked {} {} (strip_chars ''.'' (qname (q example_request)))"
    using example_is_allowed by (simp add: example_request_def)
  have h: "handle_datagram (\<lambda>d. Some example_request)
         ((example_world {})\<lparr>upstream_socket := Some other_exception\<rparr>)
       = ([], Some other_exception)"
    using b by (simp add: handle_datagram_def forward_def example_world_def)
  show ?thesis
    using b h by (simp add: example_world_def)
qed

end
